theory Spec2Isabelle
  imports Main
begin

section \<open>Characters and strings\<close>

text \<open>
  The program is \<^verbatim>\<open>src/main.py\<close>. Its strings are Python \<^verbatim>\<open>str\<close> values, sequences
  of code points. A \<^typ>\<open>char\<close> stands for a code point from U+0000 to U+00FF, read
  by \<open>code_point\<close>; page texts with higher code points are outside this development.
  The three classes are the ones Python's \<^verbatim>\<open>re\<close> module uses for a \<^verbatim>\<open>str\<close>
  pattern, restricted to that range: \<^verbatim>\<open>\s\<close> and \<^verbatim>\<open>str.strip()\<close> use the same
  whitespace test (tab to carriage return, the four separators U+001C to U+001F, the
  space, U+0085 and U+00A0), \<^verbatim>\<open>\d\<close> is the decimal digits, and \<^verbatim>\<open>\w\<close> is
  the alphanumeric characters and the underscore.
\<close>

definition code_point :: "char \<Rightarrow> nat" where
  "code_point c = of_char c"

definition newline :: char where
  "newline = CHR 0x0A"

definition is_space :: "char \<Rightarrow> bool" where
  "is_space c =
     (let n = code_point c in
        (9 \<le> n \<and> n \<le> 13) \<or> (28 \<le> n \<and> n \<le> 32) \<or> n = 133 \<or> n = 160)"

definition is_digit :: "char \<Rightarrow> bool" where
  "is_digit c = (let n = code_point c in 48 \<le> n \<and> n \<le> 57)"

definition is_alpha :: "char \<Rightarrow> bool" where
  "is_alpha c =
     (let n = code_point c in
        (65 \<le> n \<and> n \<le> 90) \<or> (97 \<le> n \<and> n \<le> 122) \<or> n = 170 \<or> n = 181 \<or> n = 186 \<or>
        (192 \<le> n \<and> n \<le> 214) \<or> (216 \<le> n \<and> n \<le> 246) \<or> (248 \<le> n \<and> n \<le> 255))"

definition is_numeric :: "char \<Rightarrow> bool" where
  "is_numeric c =
     (let n = code_point c in
        (48 \<le> n \<and> n \<le> 57) \<or> n = 178 \<or> n = 179 \<or> n = 185 \<or> (188 \<le> n \<and> n \<le> 190))"

definition is_word :: "char \<Rightarrow> bool" where
  "is_word c = (is_alpha c \<or> is_numeric c \<or> c = CHR ''_'')"

definition is_newline :: "char \<Rightarrow> bool" where
  "is_newline c = (c = newline)"

definition is_hyphen :: "char \<Rightarrow> bool" where
  "is_hyphen c = (c = CHR ''-'')"

text \<open>\<^verbatim>\<open>sep.join(xs)\<close> and \<^verbatim>\<open>s.strip()\<close>.\<close>

fun join :: "string \<Rightarrow> string list \<Rightarrow> string" where
  "join sep [] = []"
| "join sep [x] = x"
| "join sep (x # y # ys) = x @ sep @ join sep (y # ys)"

definition strip :: "string \<Rightarrow> string" where
  "strip s = rev (dropWhile is_space (rev (dropWhile is_space s)))"

section \<open>The fragment of \<^verbatim>\<open>re\<close> the program uses\<close>

text \<open>
  Each of the three patterns of \<^verbatim>\<open>extract_and_clean_text_from_pdf\<close> is a sequence of
  atoms: a character class that is taken once, or repeated greedily with \<^verbatim>\<open>*\<close> or
  \<^verbatim>\<open>+\<close>, and that may stand in a capturing group of its own. \<open>match_here\<close> is the
  backtracking match at the start of a string: a repeated atom first takes the longest
  run of its class, and gives characters back one at a time, down to its minimum, until
  the rest of the pattern matches. It returns the piece each atom consumed.
\<close>

datatype quant = One | Star | Plus

datatype atom = Atom (captured: bool) (cls: "char \<Rightarrow> bool") (quant: quant)

fun min_count :: "quant \<Rightarrow> nat" where
  "min_count One = 1"
| "min_count Star = 0"
| "min_count Plus = 1"

fun first_fit :: "(nat \<Rightarrow> 'a option) \<Rightarrow> nat \<Rightarrow> nat \<Rightarrow> 'a option" where
  "first_fit f lo 0 = (if lo = 0 then f 0 else None)"
| "first_fit f lo (Suc n) =
     (if Suc n < lo then None
      else case f (Suc n) of Some r \<Rightarrow> Some r | None \<Rightarrow> first_fit f lo n)"

primrec match_here :: "atom list \<Rightarrow> string \<Rightarrow> string list option" where
  "match_here [] s = Some []"
| "match_here (a # as) s =
     (case quant a of
        One \<Rightarrow>
          (case s of
             [] \<Rightarrow> None
           | c # cs \<Rightarrow> if cls a c then map_option ((#) [c]) (match_here as cs) else None)
      | q \<Rightarrow>
          first_fit (\<lambda>n. map_option ((#) (take n s)) (match_here as (drop n s)))
            (min_count q) (length (takeWhile (cls a) s)))"

text \<open>
  A replacement template is literal text and group references (\<^verbatim>\<open>\1\<close> is \<open>Grp 1\<close>).
  \<^verbatim>\<open>re\<close> rejects a template that refers to a group its pattern lacks when it compiles
  the template; the two templates of the program refer to groups of their patterns.
\<close>

datatype titem = Lit string | Grp nat

definition groups :: "atom list \<Rightarrow> string list \<Rightarrow> string list" where
  "groups p ps = map snd (filter (\<lambda>(a, piece). captured a) (zip p ps))"

fun expand :: "titem list \<Rightarrow> string list \<Rightarrow> string" where
  "expand [] gs = []"
| "expand (Lit s # t) gs = s @ expand t gs"
| "expand (Grp k # t) gs =
     (if 1 \<le> k \<and> k \<le> length gs then gs ! (k - 1) else []) @ expand t gs"

text \<open>
  \<^verbatim>\<open>re.sub(pattern, repl, s)\<close>: scan from the left; where the pattern matches, write
  the expanded template and go on behind the match; elsewhere copy the character. An
  empty match writes the template and copies the character (Python 3.7 and later); none
  of the program's patterns can match the empty string.
\<close>

fun re_sub :: "atom list \<Rightarrow> titem list \<Rightarrow> string \<Rightarrow> string" where
  "re_sub p t [] =
     (case match_here p [] of None \<Rightarrow> [] | Some ps \<Rightarrow> expand t (groups p ps))"
| "re_sub p t (c # cs) =
     (case match_here p (c # cs) of
        None \<Rightarrow> c # re_sub p t cs
      | Some ps \<Rightarrow>
          (let n = length (concat ps) in
             if n = 0 then expand t (groups p ps) @ c # re_sub p t cs
             else expand t (groups p ps) @ re_sub p t (drop (n - 1) cs)))"

text \<open>The patterns \<^verbatim>\<open>r'\n+'\<close>, \<^verbatim>\<open>r'(\w+)-\s+(\w+)'\<close> and \<^verbatim>\<open>r'\s*\d+\s*'\<close>.\<close>

definition newlines_re :: "atom list" where
  "newlines_re = [Atom False is_newline Plus]"

definition hyphen_re :: "atom list" where
  "hyphen_re =
     [Atom True is_word Plus, Atom False is_hyphen One, Atom False is_space Plus,
      Atom True is_word Plus]"

text \<open>The hyphen pattern behind its first group.\<close>

definition hyphen_tail :: "atom list" where
  "hyphen_tail = [Atom False is_hyphen One, Atom False is_space Plus, Atom True is_word Plus]"

definition numbers_re :: "atom list" where
  "numbers_re = [Atom False is_space Star, Atom False is_digit Plus, Atom False is_space Star]"

section \<open>\<^verbatim>\<open>extract_and_clean_text_from_pdf\<close>\<close>

text \<open>
  Exceptions are values. \<open>ValueError\<close> is the class \<^verbatim>\<open>handle_message\<close> tells apart;
  \<open>OtherException\<close> is any other subclass of \<^verbatim>\<open>Exception\<close> (\<^verbatim>\<open>FileNotFoundError\<close>,
  pypdf's \<^verbatim>\<open>PdfReadError\<close>, \<^verbatim>\<open>OSError\<close>, ...). Both carry what \<^verbatim>\<open>str(e)\<close> gives.

  pypdf is not part of the repository. A \<open>pdf\<close> is what \<^verbatim>\<open>PdfReader\<close> makes of a
  file's content: an exception, or the pages, each of which is what its
  \<^verbatim>\<open>extract_text()\<close> does, an exception or a text.

  The world the functions run in: the files by path, the lines printed, the chat
  messages sent and the user session. \<open>Message\<close> and \<open>Element\<close> are the chat
  framework's classes, with the fields the program reads or sets.
\<close>

datatype exn = ValueError string | OtherException string

fun str :: "exn \<Rightarrow> string" where
  "str (ValueError m) = m"
| "str (OtherException m) = m"

type_synonym page = "exn + string"

type_synonym pdf = "exn + page list"

type_synonym path = string

record Element =
  name :: string
  mime :: string
  file_content :: "pdf option"

record Message =
  content :: string
  author :: string
  actions :: "string list"
  elements :: "Element list"

record world =
  files :: "path \<Rightarrow> pdf option"
  stdout :: "string list"
  sent :: "Message list"
  user_session :: "string \<Rightarrow> string option"

text \<open>
  \<^verbatim>\<open>PdfReader(pdf_path)\<close> opens the file: a missing file raises
  \<^verbatim>\<open>FileNotFoundError\<close>, whose text quotes the path (\<open>CHR 0x27\<close> is the quote).
\<close>

definition PdfReader :: "path \<Rightarrow> world \<Rightarrow> pdf" where
  "PdfReader pdf_path w =
     (case files w pdf_path of
        None \<Rightarrow>
          Inl (OtherException (''[Errno 2] No such file or directory: ''
                 @ [CHR 0x27] @ pdf_path @ [CHR 0x27]))
      | Some d \<Rightarrow> d)"

text \<open>The loop of lines 18 to 21: the first page whose extraction raises ends it.\<close>

fun collect_text :: "page list \<Rightarrow> string list \<Rightarrow> exn + string list" where
  "collect_text [] full_text = Inr full_text"
| "collect_text (Inl e # pages) full_text = Inl e"
| "collect_text (Inr text # pages) full_text =
     collect_text pages (if text \<noteq> [] then full_text @ [text] else full_text)"

text \<open>Lines 30 to 36: the three substitutions and the final \<^verbatim>\<open>strip()\<close>.\<close>

definition clean_newlines :: "string \<Rightarrow> string" where
  "clean_newlines combined_text = re_sub newlines_re [Lit '' ''] combined_text"

definition clean_hyphens :: "string \<Rightarrow> string" where
  "clean_hyphens cleaned_text = re_sub hyphen_re [Grp 1, Grp 2] cleaned_text"

definition clean_numbers :: "string \<Rightarrow> string" where
  "clean_numbers cleaned_text = re_sub numbers_re [Lit '' ''] cleaned_text"

definition clean_text :: "string \<Rightarrow> string" where
  "clean_text combined_text = strip (clean_numbers (clean_hyphens (clean_newlines combined_text)))"

text \<open>The body of the \<^verbatim>\<open>try\<close>, lines 14 to 36, from the pages the reader returned.\<close>

definition try_body :: "page list \<Rightarrow> exn + string" where
  "try_body pages =
     (if length pages = 0 then Inl (ValueError ''PDF contains no pages or is unreadable.'')
      else case collect_text pages [] of
             Inl e \<Rightarrow> Inl e
           | Inr full_text \<Rightarrow>
               if full_text = [] then Inl (ValueError ''No readable text found in PDF.'')
               else Inr (clean_text (join [newline] full_text)))"

text \<open>
  The specification's \<^verbatim>\<open>normalize\<close> is that body on a document whose pages all
  extract: the ordered sequence of page texts. (\<open>normalize\<close> is a constant of the
  library, hence the longer name.)
\<close>

definition normalize_pages :: "string list \<Rightarrow> exn + string" where
  "normalize_pages pages = try_body (map Inr pages)"

definition unreadable_msg :: string where
  "unreadable_msg = ''Unable to extract text from the PDF. Please upload a readable document.''"

definition extract_and_clean_text_from_pdf :: "path \<Rightarrow> world \<Rightarrow> (exn + string) \<times> world" where
  "extract_and_clean_text_from_pdf pdf_path w =
     (case (case PdfReader pdf_path w of Inl e \<Rightarrow> Inl e | Inr pages \<Rightarrow> try_body pages) of
        Inr cleaned_text \<Rightarrow> (Inr cleaned_text, w)
      | Inl e \<Rightarrow>
          (Inl (ValueError unreadable_msg),
           w\<lparr>stdout := stdout w @ [''Error extracting text from PDF: '' @ str e]\<rparr>))"

section \<open>\<^verbatim>\<open>summarize_text\<close> and \<^verbatim>\<open>generate_quiz\<close>\<close>

definition summarize_text :: "string \<Rightarrow> string" where
  "summarize_text text =
     ''Please summarize the following document, focusing on key ideas and important points. Ensure the summary is clear, concise, and structured with short, readable paragraphs:''
     @ [newline, newline] @ text @ [newline, newline] @ ''Summary:''"

definition generate_quiz :: "string \<Rightarrow> string list" where
  "generate_quiz original_text =
     (if original_text = [] then [''No quiz can be generated for empty text.'']
      else [''Based on the following text, please generate a quiz. It can include Multiple Choice Questions (MCQs) or mixed-style questions. Focus on important facts and concepts:''
            @ [newline, newline] @ original_text @ [newline, newline] @ ''Quiz:''])"

section \<open>\<^verbatim>\<open>handle_message\<close>\<close>

text \<open>
  The chat framework is not part of the repository: \<open>send\<close> records a message in the
  order it was sent and does not raise. An uploaded element carries its name, its MIME
  type and its content; the content is taken as the \<open>pdf\<close> that \<^verbatim>\<open>PdfReader\<close>
  makes of the bytes once they are in a file (the field is \<open>file_content\<close>, since
  \<open>content\<close> is the text of a message).

  \<^verbatim>\<open>tempfile.NamedTemporaryFile(delete=False, suffix=".pdf")\<close> and
  \<^verbatim>\<open>tmpfile.write\<close> belong to the operating system: \<open>env\<close> says which name the
  temporary file gets, whether creating it, writing to it or closing it (when the
  \<^verbatim>\<open>with\<close> statement is left) raises, and what the file holds after a write or a
  close that failed (\<open>partial\<close>: the bytes that reached it, as \<^verbatim>\<open>PdfReader\<close> would
  read them). A created file is empty until it is written. When the body of the
  \<^verbatim>\<open>with\<close> statement raises and the close raises too, the exception of the close
  is the one that leaves the statement. Building the \<^verbatim>\<open>cl.Action\<close> of line 150
  is taken not to raise.
\<close>

record env =
  tmp_name :: path
  create_error :: "exn option"
  write_error :: "exn option"
  partial :: pdf
  close_error :: "exn option"

definition empty_file :: pdf where
  "empty_file = Inl (OtherException ''Cannot read an empty file'')"

definition assistant :: "string \<Rightarrow> Message" where
  "assistant text = \<lparr>content = text, author = ''Assistant'', actions = [], elements = []\<rparr>"

definition send :: "Message \<Rightarrow> world \<Rightarrow> world" where
  "send m w = w\<lparr>sent := sent w @ [m]\<rparr>"

text \<open>
  The \<^verbatim>\<open>try\<close> block, lines 98 to 152. It returns the exception that left it, if
  any, the local \<^verbatim>\<open>tmp_pdf_path\<close> (\<open>None\<close> while it is unassigned) and the world.
  The early \<^verbatim>\<open>return\<close> of line 104 leaves the block without an exception.
\<close>

definition try_block :: "env \<Rightarrow> Element \<Rightarrow> world \<Rightarrow> exn option \<times> path option \<times> world" where
  "try_block env pdf_file w =
     (case file_content pdf_file of
        None \<Rightarrow>
          (None, None,
           send (assistant (''Error: Could not retrieve content for `'' @ name pdf_file
                  @ ''`. Please try uploading again.'')) w)
      | Some data \<Rightarrow>
          (case create_error env of
             Some e \<Rightarrow> (Some e, None, w)
           | None \<Rightarrow>
               (let w1 = w\<lparr>files := (files w)(tmp_name env \<mapsto> empty_file)\<rparr> in
                case write_error env of
                  Some e \<Rightarrow>
                    (Some (case close_error env of None \<Rightarrow> e | Some e2 \<Rightarrow> e2), None,
                     w1\<lparr>files := (files w1)(tmp_name env \<mapsto> partial env)\<rparr>)
                | None \<Rightarrow>
                    (let tmp_pdf_path = tmp_name env in
                     case close_error env of
                       Some e \<Rightarrow>
                         (Some e, Some tmp_pdf_path,
                          w1\<lparr>files := (files w1)(tmp_name env \<mapsto> partial env)\<rparr>)
                     | None \<Rightarrow>
                         (let w2 = w1\<lparr>files := (files w1)(tmp_name env \<mapsto> data)\<rparr> in
                          case extract_and_clean_text_from_pdf tmp_pdf_path w2 of
                            (Inl e, w3) \<Rightarrow> (Some e, Some tmp_pdf_path, w3)
                          | (Inr original_text, w3) \<Rightarrow>
                              (let w4 = w3\<lparr>user_session :=
                                          (user_session w3)(''original_pdf_text'' \<mapsto> original_text)\<rparr>;
                                   summary_content = summarize_text original_text;
                                   w5 = send (assistant ''Generating summary...'') w4;
                                   w6 = send (assistant (''**Summary:**'' @ [newline] @ summary_content)) w5;
                                   w7 = (if original_text \<noteq> []
                                         then send ((assistant ''Summary generated successfully!'')
                                                      \<lparr>actions := [''create_quiz'']\<rparr>) w6
                                         else w6)
                               in (None, Some tmp_pdf_path, w7)))))))"

text \<open>The two handlers, lines 154 to 163, and the \<^verbatim>\<open>finally\<close> clause, lines 164 to 167.\<close>

definition handlers :: "exn option \<Rightarrow> world \<Rightarrow> world" where
  "handlers raised w =
     (case raised of
        None \<Rightarrow> w
      | Some (ValueError m) \<Rightarrow> send (assistant m) w
      | Some e \<Rightarrow> send (assistant (''An unexpected error occurred: '' @ str e)) w)"

definition finally_block :: "path option \<Rightarrow> world \<Rightarrow> world" where
  "finally_block tmp_pdf_path w =
     (case tmp_pdf_path of
        None \<Rightarrow> w
      | Some p \<Rightarrow> if files w p \<noteq> None then w\<lparr>files := (files w)(p := None)\<rparr> else w)"

definition handle_message :: "env \<Rightarrow> Message \<Rightarrow> world \<Rightarrow> world" where
  "handle_message env message w =
     (case filter (\<lambda>file. mime file = ''application/pdf'') (elements message) of
        [] \<Rightarrow> send (assistant ''Please upload a PDF file to summarize.'') w
      | pdf_file # _ \<Rightarrow>
          (let w1 = send (assistant (''Processing `'' @ name pdf_file @ ''`...'')) w in
           case try_block env pdf_file w1 of
             (raised, tmp_pdf_path, w2) \<Rightarrow> finally_block tmp_pdf_path (handlers raised w2)))"

section \<open>The cleaning steps in the specification's words\<close>

text \<open>
  Step 2 of the specification: every run of one or more newline characters becomes a
  single space.
\<close>

function collapse_newline_runs :: "string \<Rightarrow> string" where
  "collapse_newline_runs [] = []"
| "collapse_newline_runs (c # cs) =
     (if c = newline then CHR '' '' # collapse_newline_runs (dropWhile (\<lambda>d. d = newline) cs)
      else c # collapse_newline_runs cs)"
  by pat_completeness auto

termination collapse_newline_runs
  by (relation "measure length") (auto simp: less_Suc_eq_le length_dropWhile_le)

text \<open>
  Step 3 of the specification, read from left to right: where the text reads a run of
  word characters, a hyphen, a run of whitespace and a run of word characters, the
  hyphen and the whitespace are deleted and the scan goes on behind the second run;
  elsewhere the character is copied.
\<close>

definition hyphenated :: "string \<Rightarrow> (string \<times> string \<times> string) option" where
  "hyphenated s =
     (let w1 = takeWhile is_word s; r1 = dropWhile is_word s in
      case r1 of
        [] \<Rightarrow> None
      | h # r2 \<Rightarrow>
          (let sp = takeWhile is_space r2; r3 = dropWhile is_space r2;
               w2 = takeWhile is_word r3
           in if w1 \<noteq> [] \<and> h = CHR ''-'' \<and> sp \<noteq> [] \<and> w2 \<noteq> []
              then Some (w1, w2, dropWhile is_word r3) else None))"

function rejoin_hyphens :: "string \<Rightarrow> string" where
  "rejoin_hyphens [] = []"
| "rejoin_hyphens (c # cs) =
     (case hyphenated (c # cs) of
        None \<Rightarrow> c # rejoin_hyphens cs
      | Some (w1, w2, rest) \<Rightarrow> w1 @ w2 @ rejoin_hyphens rest)"
  by pat_completeness auto

termination rejoin_hyphens
proof (relation "measure length")
  fix c cs x2 w1 y w2 rest
  assume h: "hyphenated (c # cs) = Some x2" and x: "(w1, y) = x2" and y: "(w2, rest) = y"
  then obtain d r2 where r1: "dropWhile is_word (c # cs) = d # r2"
    and rest: "rest = dropWhile is_word (dropWhile is_space r2)"
    by (auto simp: hyphenated_def Let_def split: list.splits if_splits)
  have "length rest \<le> length r2"
    unfolding rest by (meson length_dropWhile_le order_trans)
  moreover have "length (d # r2) \<le> length (c # cs)"
    using length_dropWhile_le [of is_word "c # cs"] by (simp only: r1)
  ultimately show "(rest, c # cs) \<in> measure length" by simp
qed simp_all

text \<open>
  What a match guarantees of the piece an atom consumed: its characters are of the
  atom's class, and there are as many as the quantifier asks for.
\<close>

definition piece_ok :: "atom \<Rightarrow> string \<Rightarrow> bool" where
  "piece_ok a piece = (list_all (cls a) piece \<and> min_count (quant a) \<le> length piece
     \<and> (quant a = One \<longrightarrow> length piece = 1))"

text \<open>
  The characters no cleaning step deletes: neither whitespace, nor a decimal digit, nor
  a hyphen.
\<close>

definition kept :: "char \<Rightarrow> bool" where
  "kept c = (\<not> is_space c \<and> \<not> is_digit c \<and> \<not> is_hyphen c)"

section \<open>Evaluation\<close>

lemmas char_class_defs =
  code_point_def newline_def is_space_def is_digit_def is_alpha_def is_numeric_def is_word_def
  is_newline_def is_hyphen_def

lemmas normalize_defs =
  normalize_pages_def try_body_def clean_text_def clean_newlines_def clean_hyphens_def
  clean_numbers_def newlines_re_def hyphen_re_def numbers_re_def groups_def strip_def

section \<open>The matcher\<close>

text \<open>
  A match found by backtracking is one of the tries between the minimum and the longest
  run; the pieces it returns are a prefix of the text, each of its atom's class.
\<close>

lemma first_fit_SomeD:
  "first_fit f lo n = Some r \<Longrightarrow> \<exists>k. lo \<le> k \<and> k \<le> n \<and> f k = Some r"
proof (induction n)
  case 0
  then show ?case by (auto split: if_splits)
next
  case (Suc n)
  show ?case
  proof (cases "f (Suc n)")
    case None
    with Suc.prems have "first_fit f lo n = Some r"
      by (simp split: if_splits)
    from Suc.IH [OF this] show ?thesis
      by (meson le_Suc_eq)
  next
    case (Some a)
    with Suc.prems have "lo \<le> Suc n \<and> f (Suc n) = Some r"
      by (simp split: if_splits)
    then show ?thesis by blast
  qed
qed

lemma first_fit_last:
  "(\<And>k. k < n \<Longrightarrow> f k = None) \<Longrightarrow> first_fit f lo n = (if lo \<le> n then f n else None)"
proof (induction n)
  case 0
  then show ?case by simp
next
  case (Suc n)
  have "first_fit f lo n = (if lo \<le> n then f n else None)"
    using Suc by simp
  moreover have "f n = None" using Suc.prems by simp
  ultimately have "first_fit f lo n = None" by simp
  then show ?case by (auto split: option.splits)
qed

lemma first_fit_top:
  "lo \<le> n \<Longrightarrow> f n = Some r \<Longrightarrow> first_fit f lo n = Some r"
  by (cases n) auto

lemma take_takeWhile_all:
  "n \<le> length (takeWhile P s) \<Longrightarrow> list_all P (take n s)"
proof -
  assume n: "n \<le> length (takeWhile P s)"
  have "take n s = take n (takeWhile P s)"
    by (metis n append_eq_conv_conj append_take_drop_id takeWhile_dropWhile_id take_all_iff take_take min.absorb1 length_take
        take_append diff_is_0_eq' take_0 append_Nil2)
  then show ?thesis
    by (metis in_set_takeD list_all_iff set_takeWhileD)
qed

lemma match_here_sound:
  "match_here p s = Some ps \<Longrightarrow>
     list_all2 piece_ok p ps \<and> take (length (concat ps)) s = concat ps
     \<and> length (concat ps) \<le> length s"
proof (induction p arbitrary: s ps)
  case Nil
  then show ?case by simp
next
  case (Cons a as)
  show ?case
  proof (cases "quant a = One")
    case True
    with Cons.prems obtain c cs qs where s: "s = c # cs" and c: "cls a c"
      and m: "match_here as cs = Some qs" and ps: "ps = [c] # qs"
      by (auto split: list.splits if_splits)
    from Cons.IH [OF m] show ?thesis
      by (simp add: s ps c piece_ok_def True)
  next
    case False
    with Cons.prems have "first_fit (\<lambda>n. map_option ((#) (take n s)) (match_here as (drop n s)))
            (min_count (quant a)) (length (takeWhile (cls a) s)) = Some ps"
      by (cases "quant a") simp_all
    from first_fit_SomeD [OF this] obtain k qs where lo: "min_count (quant a) \<le> k"
      and hi: "k \<le> length (takeWhile (cls a) s)"
      and m: "match_here as (drop k s) = Some qs" and ps: "ps = take k s # qs"
      by auto
    have ks: "k \<le> length s"
      using hi length_takeWhile_le [of "cls a" s] by linarith
    have all: "list_all (cls a) (take k s)"
      using hi by (rule take_takeWhile_all)
    from Cons.IH [OF m] have ih: "list_all2 piece_ok as qs"
      "take (length (concat qs)) (drop k s) = concat qs"
      "length (concat qs) \<le> length (drop k s)" by simp_all
    have "take (k + length (concat qs)) s = take k s @ concat qs"
      using ih(2) by (simp add: take_add)
    moreover have "piece_ok a (take k s)"
      using ks lo all False by (simp add: piece_ok_def min.absorb2)
    moreover have "k + length (concat qs) \<le> length s"
      using ih(3) ks by simp
    ultimately show ?thesis
      using ih(1) by (simp add: ps)
  qed
qed


lemma re_sub_filter:
  assumes "\<And>s ps. match_here p s = Some ps \<Longrightarrow>
             filter K (expand t (groups p ps)) = filter K (concat ps)"
  shows "filter K (re_sub p t s) = filter K s"
  using assms
proof (induction p t s rule: re_sub.induct)
  case (1 p t)
  show ?case
  proof (cases "match_here p []")
    case None
    then show ?thesis by simp
  next
    case (Some ps)
    from match_here_sound [OF Some] have "concat ps = []" by simp
    with "1.prems" [OF Some] Some show ?thesis by simp
  qed
next
  case (2 p t c cs)
  show ?case
  proof (cases "match_here p (c # cs)")
    case None
    with 2 show ?thesis by simp
  next
    case (Some ps)
    note snd = match_here_sound [OF Some]
    show ?thesis
    proof (cases "length (concat ps) = 0")
      case True
      then have "concat ps = []" by simp
      with "2.prems" [OF Some] have "filter K (expand t (groups p ps)) = []" by simp
      moreover have "filter K (re_sub p t cs) = filter K cs"
        using "2.IH"(2) [OF Some refl True] "2.prems" by blast
      moreover have "re_sub p t (c # cs) = expand t (groups p ps) @ c # re_sub p t cs"
        using True by (simp only: re_sub.simps Some option.case Let_def if_True refl)
      ultimately show ?thesis by simp
    next
      case False
      define n where "n = length (concat ps)"
      have n: "n \<noteq> 0" using False by (simp add: n_def)
      have split: "c # cs = concat ps @ drop (n - 1) cs"
      proof -
        have "c # cs = take n (c # cs) @ drop n (c # cs)" by simp
        also have "take n (c # cs) = concat ps" using snd by (simp add: n_def)
        also have "drop n (c # cs) = drop (n - 1) cs" using n by (cases n) simp_all
        finally show ?thesis .
      qed
      have ih: "filter K (re_sub p t (drop (n - 1) cs)) = filter K (drop (n - 1) cs)"
        using "2.IH"(3) [OF Some refl False] "2.prems" unfolding n_def by blast
      have "filter K (re_sub p t (c # cs)) =
              filter K (expand t (groups p ps)) @ filter K (re_sub p t (drop (n - 1) cs))"
        unfolding n_def using False
        by (simp only: re_sub.simps Some option.case Let_def if_False filter_append)
      also have "\<dots> = filter K (concat ps) @ filter K (drop (n - 1) cs)"
        using "2.prems" [OF Some] ih by simp
      also have "\<dots> = filter K (c # cs)"
        by (metis filter_append split)
      finally show ?thesis .
    qed
  qed
qed


lemma re_sub_match:
  assumes "match_here p s = Some ps" and "concat ps \<noteq> []"
  shows "re_sub p t s = expand t (groups p ps) @ re_sub p t (drop (length (concat ps)) s)"
proof (cases s)
  case Nil
  with match_here_sound [OF assms(1)] assms(2) show ?thesis by simp
next
  case (Cons c cs)
  define n where "n = length (concat ps)"
  have n: "n \<noteq> 0" using assms(2) by (simp add: n_def)
  then have d: "drop n (c # cs) = drop (n - 1) cs" by (cases n) simp_all
  have "re_sub p t (c # cs) = expand t (groups p ps) @ re_sub p t (drop (n - 1) cs)"
    using n assms(1) unfolding n_def Cons
    by (simp only: re_sub.simps option.case Let_def if_False)
  then show ?thesis by (simp only: Cons d n_def [symmetric])
qed

lemma re_sub_no_match:
  "match_here p (c # cs) = None \<Longrightarrow> re_sub p t (c # cs) = c # re_sub p t cs"
  by simp

lemma take_length_takeWhile: "take (length (takeWhile P s)) s = takeWhile P s"
  by (metis takeWhile_eq_take)

lemma drop_length_takeWhile: "drop (length (takeWhile P s)) s = dropWhile P s"
  by (metis dropWhile_eq_drop)

lemma drop_in_run:
  assumes "k < length (takeWhile P s)"
  shows "\<exists>c cs. drop k s = c # cs \<and> P c"
proof -
  have ks: "k < length s"
    using assms length_takeWhile_le [of P s] by linarith
  have "takeWhile P s ! k = s ! k" using assms by (rule takeWhile_nth)
  moreover have "takeWhile P s ! k \<in> set (takeWhile P s)" using assms by simp
  ultimately have "P (s ! k)" by (metis set_takeWhileD)
  moreover have "drop k s = s ! k # drop (Suc k) s"
    using ks by (simp add: Cons_nth_drop_Suc)
  ultimately show ?thesis by blast
qed

lemma match_greedy_last:
  assumes "q \<noteq> One"
  shows "match_here [Atom b P q] s =
           (if min_count q \<le> length (takeWhile P s) then Some [takeWhile P s] else None)"
proof -
  let ?f = "\<lambda>n. map_option ((#) (take n s)) (match_here [] (drop n s))"
  let ?n = "length (takeWhile P s)"
  have m: "match_here [Atom b P q] s = first_fit ?f (min_count q) ?n"
    using assms by (cases q) simp_all
  show ?thesis
  proof (cases "min_count q \<le> ?n")
    case True
    have "?f ?n = Some [takeWhile P s]" by (simp add: take_length_takeWhile)
    from first_fit_top [where f = ?f, OF True this] True show ?thesis
      unfolding m by (simp only: if_True)
  next
    case False
    have "first_fit ?f (min_count q) ?n = None"
    proof (cases "first_fit ?f (min_count q) ?n")
      case None
      then show ?thesis .
    next
      case (Some r)
      from first_fit_SomeD [OF Some] False show ?thesis by auto
    qed
    with False show ?thesis unfolding m by (simp only: if_False)
  qed
qed

lemma match_greedy_disjoint:
  assumes "q \<noteq> One" and "\<And>c cs. P c \<Longrightarrow> match_here as (c # cs) = None"
  shows "match_here (Atom b P q # as) s =
           (if min_count q \<le> length (takeWhile P s)
            then map_option ((#) (takeWhile P s)) (match_here as (dropWhile P s)) else None)"
proof -
  let ?f = "\<lambda>n. map_option ((#) (take n s)) (match_here as (drop n s))"
  let ?n = "length (takeWhile P s)"
  have m: "match_here (Atom b P q # as) s = first_fit ?f (min_count q) ?n"
    using assms(1) by (cases q) simp_all
  have "?f k = None" if "k < ?n" for k
  proof -
    from drop_in_run [OF that] obtain c cs where "drop k s = c # cs" "P c" by blast
    then show ?thesis using assms(2) by simp
  qed
  then have "first_fit ?f (min_count q) ?n = (if min_count q \<le> ?n then ?f ?n else None)"
    by (rule first_fit_last)
  then show ?thesis
    unfolding m by (simp only: take_length_takeWhile drop_length_takeWhile)
qed

section \<open>What the cleaning steps keep\<close>

lemma code_point_hyphen: "is_hyphen c \<Longrightarrow> code_point c = 45"
  by (simp add: is_hyphen_def code_point_def)

lemma code_point_newline: "is_newline c \<Longrightarrow> code_point c = 10"
  by (simp add: is_newline_def newline_def code_point_def)

lemma code_point_underscore: "code_point (CHR ''_'') = 95"
  by (simp add: code_point_def)

lemma newline_is_space: "is_newline c \<Longrightarrow> is_space c"
  by (simp add: is_space_def code_point_newline)

lemma space_not_word: "is_space c \<Longrightarrow> \<not> is_word c"
  using code_point_underscore
  by (auto simp: is_space_def is_word_def is_alpha_def is_numeric_def Let_def)

lemma word_not_hyphen: "is_word c \<Longrightarrow> \<not> is_hyphen c"
  using code_point_underscore
  by (auto simp: is_word_def is_alpha_def is_numeric_def Let_def dest!: code_point_hyphen)

lemma space_not_digit: "is_space c \<Longrightarrow> \<not> is_digit c"
  by (auto simp: is_space_def is_digit_def Let_def)

lemma not_kept_space: "is_space c \<Longrightarrow> \<not> kept c"
  by (simp add: kept_def)

lemma filter_kept_none: "list_all (\<lambda>c. \<not> kept c) xs \<Longrightarrow> filter kept xs = []"
  by (induction xs) auto

lemma filter_kept_spaces: "list_all is_space xs \<Longrightarrow> filter kept xs = []"
  by (induction xs) (auto simp: kept_def)

lemma filter_kept_digits: "list_all is_digit xs \<Longrightarrow> filter kept xs = []"
  by (induction xs) (auto simp: kept_def)

lemma filter_kept_hyphens: "list_all is_hyphen xs \<Longrightarrow> filter kept xs = []"
  by (induction xs) (auto simp: kept_def)

lemma filter_kept_newlines: "list_all is_newline xs \<Longrightarrow> filter kept xs = []"
  by (induction xs) (auto simp: kept_def newline_is_space)

lemma kept_blank: "\<not> kept (CHR '' '')"
  by (simp add: kept_def is_space_def code_point_def)

lemma clean_newlines_kept: "filter kept (clean_newlines s) = filter kept s"
  unfolding clean_newlines_def
proof (rule re_sub_filter)
  fix s ps
  assume "match_here newlines_re s = Some ps"
  from match_here_sound [OF this] obtain a where "ps = [a]" "list_all is_newline a"
    by (auto simp: newlines_re_def list_all2_Cons1 piece_ok_def)
  then show "filter kept (expand [Lit '' ''] (groups newlines_re ps)) = filter kept (concat ps)"
    by (simp add: kept_blank filter_kept_newlines)
qed

lemma clean_numbers_kept: "filter kept (clean_numbers s) = filter kept s"
  unfolding clean_numbers_def
proof (rule re_sub_filter)
  fix s ps
  assume "match_here numbers_re s = Some ps"
  from match_here_sound [OF this] obtain a b c where "ps = [a, b, c]"
    "list_all is_space a" "list_all is_digit b" "list_all is_space c"
    by (auto simp: numbers_re_def list_all2_Cons1 piece_ok_def)
  then show "filter kept (expand [Lit '' ''] (groups numbers_re ps)) = filter kept (concat ps)"
    by (simp add: kept_blank filter_kept_spaces filter_kept_digits)
qed

lemma clean_hyphens_kept: "filter kept (clean_hyphens s) = filter kept s"
  unfolding clean_hyphens_def
proof (rule re_sub_filter)
  fix s ps
  assume "match_here hyphen_re s = Some ps"
  from match_here_sound [OF this] obtain a b c d where ps: "ps = [a, b, c, d]"
    and "list_all is_hyphen b" "list_all is_space c"
    by (auto simp: hyphen_re_def list_all2_Cons1 piece_ok_def)
  then show "filter kept (expand [Grp 1, Grp 2] (groups hyphen_re ps)) = filter kept (concat ps)"
    by (simp add: hyphen_re_def groups_def filter_kept_spaces filter_kept_hyphens)
qed

lemma filter_kept_dropWhile: "filter kept (dropWhile is_space s) = filter kept s"
  by (induction s) (auto simp: kept_def)

lemma strip_kept: "filter kept (strip s) = filter kept s"
proof -
  have "filter kept (strip s) = rev (filter kept (dropWhile is_space (rev (dropWhile is_space s))))"
    by (simp add: strip_def rev_filter)
  also have "\<dots> = rev (filter kept (rev (dropWhile is_space s)))"
    by (simp only: filter_kept_dropWhile)
  also have "\<dots> = filter kept (dropWhile is_space s)"
    by (simp add: rev_filter)
  finally show ?thesis by (simp only: filter_kept_dropWhile)
qed

lemma clean_text_kept: "filter kept (clean_text s) = filter kept s"
  by (simp add: clean_text_def strip_kept clean_numbers_kept clean_hyphens_kept clean_newlines_kept)

lemma kept_newline: "\<not> kept newline"
  by (simp add: kept_def is_space_def code_point_def newline_def)

lemma join_kept: "filter kept (join [newline] xs) = filter kept (concat xs)"
  by (induction "[newline]" xs rule: join.induct) (simp_all add: kept_newline)

lemma collect_text_texts:
  "collect_text (map Inr pages) full_text = Inr (full_text @ filter (\<lambda>text. text \<noteq> []) pages)"
  by (induction pages arbitrary: full_text) simp_all

lemma concat_nonempty: "concat (filter (\<lambda>text. text \<noteq> []) pages) = concat pages"
  by (induction pages) simp_all

lemma normalize_pages_eq:
  "normalize_pages pages =
     (if pages = [] then Inl (ValueError ''PDF contains no pages or is unreadable.'')
      else if list_all (\<lambda>text. text = []) pages
           then Inl (ValueError ''No readable text found in PDF.'')
           else Inr (clean_text (join [newline] (filter (\<lambda>text. text \<noteq> []) pages))))"
proof -
  have "(filter (\<lambda>text. text \<noteq> []) pages = []) = list_all (\<lambda>text. text = []) pages"
    by (induction pages) simp_all
  then show ?thesis
    by (simp add: normalize_pages_def try_body_def collect_text_texts)
qed

lemma normalize_pages_kept:
  assumes "normalize_pages pages = Inr t"
  shows "filter kept t = filter kept (concat pages)"
proof -
  from assms have "t = clean_text (join [newline] (filter (\<lambda>text. text \<noteq> []) pages))"
    by (simp add: normalize_pages_eq split: if_splits)
  then show ?thesis
    by (simp add: clean_text_kept join_kept concat_nonempty)
qed

section \<open>When \<^verbatim>\<open>normalize\<close> fails, and what it returns\<close>

text \<open>
  Claim C1, as the specification states it: normalize fails when the sequence is empty
  or every page yields empty or whitespace-only text. Line 20 tests \<^verbatim>\<open>if text:\<close>,
  which only an empty text fails: a page of three spaces is kept, the document passes
  the check of line 23, and the result is the empty string.
\<close>

theorem normalize_pages_whitespace_counterexample:
  "list_all (list_all is_space) [''   '', ''''] \<and> normalize_pages [''   '', ''''] = Inr ''''"
  by (simp add: normalize_defs char_class_defs)

text \<open>
  Claim C1, amended: normalize fails exactly when every page text is the empty string,
  which includes the empty sequence. The empty sequence raises the \<^verbatim>\<open>ValueError\<close>
  of line 15, a non-empty sequence of empty texts the one of line 24.
\<close>

theorem normalize_pages_fails_iff:
  "((\<exists>e. normalize_pages pages = Inl e) \<longleftrightarrow> list_all (\<lambda>text. text = []) pages)
   \<and> normalize_pages [] = Inl (ValueError ''PDF contains no pages or is unreadable.'')
   \<and> (pages \<noteq> [] \<and> list_all (\<lambda>text. text = []) pages \<longrightarrow>
        normalize_pages pages = Inl (ValueError ''No readable text found in PDF.''))"
proof -
  have "pages = [] \<Longrightarrow> list_all (\<lambda>text. text = []) pages" by simp
  then show ?thesis by (auto simp: normalize_pages_eq)
qed

theorem normalize_pages_fails_iff_witness:
  "normalize_pages ['''', ''''] = Inl (ValueError ''No readable text found in PDF.'')
   \<and> (\<exists>e. normalize_pages ['''', ''''] = Inl e)
   \<and> \<not> (\<exists>e. normalize_pages [''   '', ''''] = Inl e)"
  using normalize_pages_fails_iff [of "['''', '''']"] normalize_pages_fails_iff [of "[''   '', '''']"]
  by simp

text \<open>
  Claim C2, as the specification states it: on success the returned string is
  non-empty. A page that holds only a number passes both checks, the number is replaced
  by a space, and \<^verbatim>\<open>strip()\<close> leaves the empty string.
\<close>

theorem normalize_pages_digits_counterexample:
  "normalize_pages [''2024''] = Inr ''''"
  by (simp add: normalize_defs char_class_defs)

text \<open>
  Claim C2, amended: on success the returned string keeps, in order, every character of
  the pages that is neither whitespace nor a decimal digit nor a hyphen; so it is
  non-empty whenever some page holds such a character.
\<close>

theorem normalize_pages_keeps_text:
  assumes "normalize_pages pages = Inr t" and "list_ex kept (concat pages)"
  shows "t \<noteq> [] \<and> filter kept t = filter kept (concat pages)"
proof -
  have eq: "filter kept t = filter kept (concat pages)"
    using assms(1) by (rule normalize_pages_kept)
  from assms(2) have "filter kept (concat pages) \<noteq> []"
    by (simp add: list_ex_iff filter_empty_conv)
  with eq show ?thesis by auto
qed

theorem normalize_pages_keeps_text_witness:
  "normalize_pages [''Page 1'', '''', ''co- op''] = Inr ''Page coop''
   \<and> list_ex kept (concat [''Page 1'', '''', ''co- op''])
   \<and> ''Page coop'' \<noteq> []
   \<and> filter kept ''Page coop'' = filter kept (concat [''Page 1'', '''', ''co- op''])"
proof -
  have r: "normalize_pages [''Page 1'', '''', ''co- op''] = Inr ''Page coop''"
    by (simp add: normalize_defs char_class_defs)
  have k: "list_ex kept (concat [''Page 1'', '''', ''co- op''])"
    by (simp add: kept_def char_class_defs)
  from normalize_pages_keeps_text [OF r k] r k show ?thesis by simp
qed

section \<open>The page-number step\<close>

text \<open>
  The pattern \<^verbatim>\<open>\s*\d+\s*\<close> matches wherever the text starts with a digit,
  whatever stands before it: no digit is left after the substitution.
\<close>

lemma match_numbers_at_digit:
  assumes "is_digit c"
  shows "\<exists>ps. match_here numbers_re (c # cs) = Some ps"
proof -
  let ?s = "c # cs"
  let ?n = "length (takeWhile is_digit ?s)"
  have sp: "takeWhile is_space ?s = []"
    using space_not_digit [of c] assms by auto
  have n: "min_count Plus \<le> ?n" using assms by simp
  have last: "match_here [Atom False is_space Star] r = Some [takeWhile is_space r]" for r
    by (subst match_greedy_last) simp_all
  have "match_here [Atom False is_digit Plus, Atom False is_space Star] ?s
          = first_fit (\<lambda>n. map_option ((#) (take n ?s))
                (match_here [Atom False is_space Star] (drop n ?s))) (min_count Plus) ?n"
    by (subst match_here.simps) simp
  also have "\<dots> = Some [take ?n ?s, takeWhile is_space (drop ?n ?s)]"
    by (rule first_fit_top [OF n]) (simp only: last option.map)
  finally have digits: "match_here [Atom False is_digit Plus, Atom False is_space Star] ?s
          = Some [take ?n ?s, takeWhile is_space (drop ?n ?s)]" .
  have "match_here numbers_re ?s
          = first_fit (\<lambda>n. map_option ((#) (take n ?s))
                (match_here [Atom False is_digit Plus, Atom False is_space Star] (drop n ?s)))
              (min_count Star) (length (takeWhile is_space ?s))"
    unfolding numbers_re_def by (subst match_here.simps) simp
  also have "\<dots> = Some [[], take ?n ?s, takeWhile is_space (drop ?n ?s)]"
    by (simp only: sp list.size min_count.simps first_fit.simps if_True take_0 drop_0 digits
        option.map refl)
  finally show ?thesis by blast
qed

lemma clean_numbers_strips_every_digit: "list_all (\<lambda>c. \<not> is_digit c) (clean_numbers s)"
  unfolding clean_numbers_def
proof (induction numbers_re "[Lit '' '']" s rule: re_sub.induct)
  case 1
  then show ?case
    by (cases "match_here numbers_re []") (simp_all add: is_digit_def code_point_def)
next
  case (2 c cs)
  have blank: "\<not> is_digit (CHR '' '')" by (simp add: is_digit_def code_point_def)
  show ?case
  proof (cases "match_here numbers_re (c # cs)")
    case None
    with match_numbers_at_digit [of c cs] have "\<not> is_digit c" by auto
    with None "2.hyps"(1) show ?thesis by simp
  next
    case (Some ps)
    show ?thesis
    proof (cases "length (concat ps) = 0")
      case True
      from match_here_sound [OF Some] have "list_all2 piece_ok numbers_re ps" by simp
      then have "concat ps \<noteq> []"
        by (auto simp: numbers_re_def list_all2_Cons1 piece_ok_def)
      with True show ?thesis by simp
    next
      case False
      have "re_sub numbers_re [Lit '' ''] (c # cs) =
              expand [Lit '' ''] (groups numbers_re ps)
              @ re_sub numbers_re [Lit '' ''] (drop (length (concat ps) - 1) cs)"
        using False by (simp only: re_sub.simps Some option.case Let_def if_False)
      with "2.hyps"(3) [OF Some refl False] blank show ?thesis by simp
    qed
  qed
qed

text \<open>
  The example of the specification holds: the \<^verbatim>\<open>1\<close> between a space and the
  newline, by then a space, goes with both.
\<close>

lemma normalize_pages_page_number:
  "normalize_pages [''Page 1'' @ [newline] @ ''text here''] = Inr ''Page text here''"
  by (simp add: normalize_defs char_class_defs)

text \<open>
  Claim C3: only standalone runs of digits, surrounded by whitespace, are stripped. The
  comment of line 34 says the same (\<^verbatim>\<open>removes standalone numbers\<close>), but both
  \<^verbatim>\<open>\s*\<close> of the pattern may match nothing, so a run of digits inside a word is
  replaced by a space as well: the page \<^verbatim>\<open>H2O\<close> comes out as \<^verbatim>\<open>H O\<close>.
\<close>

theorem normalize_pages_embedded_digits:
  "normalize_pages [''H2O''] = Inr ''H O''"
  by (simp add: normalize_defs char_class_defs)

section \<open>The newline step\<close>

text \<open>
  The pattern \<^verbatim>\<open>\n+\<close> matches exactly where the text starts with a newline, and
  takes the whole run; so the substitution is the collapse of the specification.
\<close>

lemma match_plus_last:
  "match_here [Atom b P Plus] s = (if takeWhile P s = [] then None else Some [takeWhile P s])"
  by (subst match_greedy_last) (auto simp: Suc_le_eq)

lemma match_newlines:
  "match_here newlines_re s =
     (if takeWhile is_newline s = [] then None else Some [takeWhile is_newline s])"
  unfolding newlines_re_def by (rule match_plus_last)

lemma is_newline_eq: "is_newline = (\<lambda>d. d = newline)"
  by (rule ext) (simp add: is_newline_def)

lemma clean_newlines_collapse: "clean_newlines s = collapse_newline_runs s"
proof (induction s rule: collapse_newline_runs.induct)
  case 1
  then show ?case by (simp add: clean_newlines_def match_newlines)
next
  case (2 c cs)
  show ?case
  proof (cases "c = newline")
    case True
    let ?run = "takeWhile is_newline (c # cs)"
    have isn: "is_newline c"
      using True by (simp add: is_newline_def)
    have m: "match_here newlines_re (c # cs) = Some [?run]"
      by (simp add: match_newlines isn)
    have "re_sub newlines_re [Lit '' ''] (c # cs) =
            expand [Lit '' ''] (groups newlines_re [?run])
            @ re_sub newlines_re [Lit '' ''] (drop (length (concat [?run])) (c # cs))"
      by (rule re_sub_match [OF m]) (simp add: isn)
    also have "drop (length (concat [?run])) (c # cs) = dropWhile is_newline cs"
      by (simp add: isn drop_length_takeWhile)
    finally have "clean_newlines (c # cs) = CHR '' '' # clean_newlines (dropWhile is_newline cs)"
      by (simp add: clean_newlines_def groups_def newlines_re_def)
    with "2.IH"(1) [OF True] True show ?thesis
      by (simp add: is_newline_eq)
  next
    case False
    then have "match_here newlines_re (c # cs) = None"
      by (simp add: match_newlines is_newline_def)
    then have "clean_newlines (c # cs) = c # clean_newlines cs"
      unfolding clean_newlines_def by (rule re_sub_no_match)
    with "2.IH"(2) [OF False] False show ?thesis by simp
  qed
qed

lemma collapse_no_newline: "newline \<notin> set (collapse_newline_runs s)"
  by (induction s rule: collapse_newline_runs.induct) (auto simp: newline_def)



text \<open>
  Claim C5: normalize joins the non-empty page texts with a newline, in page order, and
  then collapses every run of one or more newlines into a single space; the hyphen
  step, the number step and \<^verbatim>\<open>strip()\<close> follow. After the collapse no newline is
  left. normalize(["Hello\nworld"]) is "Hello world".
\<close>

theorem normalize_pages_joins_then_collapses:
  assumes "normalize_pages pages = Inr t"
  shows "t = strip (clean_numbers (clean_hyphens (collapse_newline_runs
               (join [newline] (filter (\<lambda>text. text \<noteq> []) pages)))))
         \<and> newline \<notin> set (collapse_newline_runs
               (join [newline] (filter (\<lambda>text. text \<noteq> []) pages)))
         \<and> normalize_pages [''Hello'' @ [newline] @ ''world''] = Inr ''Hello world''"
proof -
  have "normalize_pages [''Hello'' @ [newline] @ ''world''] = Inr ''Hello world''"
    by (simp add: normalize_defs char_class_defs)
  moreover from assms
  have "t = clean_text (join [newline] (filter (\<lambda>text. text \<noteq> []) pages))"
    by (simp add: normalize_pages_eq split: if_splits)
  ultimately show ?thesis
    by (simp add: clean_text_def clean_newlines_collapse collapse_no_newline)
qed

theorem normalize_pages_joins_then_collapses_witness:
  "normalize_pages [''one'', '''', ''two'' @ [newline, newline] @ ''three''] = Inr ''one two three''
   \<and> collapse_newline_runs (join [newline] (filter (\<lambda>text. text \<noteq> [])
         [''one'', '''', ''two'' @ [newline, newline] @ ''three''])) = ''one two three''"
proof -
  have r: "normalize_pages [''one'', '''', ''two'' @ [newline, newline] @ ''three'']
             = Inr ''one two three''"
    by (simp add: normalize_defs char_class_defs)
  have c: "collapse_newline_runs (join [newline] (filter (\<lambda>text. text \<noteq> [])
         [''one'', '''', ''two'' @ [newline, newline] @ ''three''])) = ''one two three''"
    by (simp add: newline_def)
  from normalize_pages_joins_then_collapses [OF r] r c show ?thesis by simp
qed

section \<open>The hyphen step\<close>

text \<open>
  The pattern \<^verbatim>\<open>(\w+)-\s+(\w+)\<close> matches at the start of a text exactly when
  \<open>hyphenated\<close> finds its four runs there: a word character is no hyphen and
  whitespace is no word character, so giving back characters of a greedy run never
  helps.
\<close>

lemma match_space_word:
  "match_here [Atom False is_space Plus, Atom True is_word Plus] r =
     (if takeWhile is_space r = [] \<or> takeWhile is_word (dropWhile is_space r) = [] then None
      else Some [takeWhile is_space r, takeWhile is_word (dropWhile is_space r)])"
proof -
  have "match_here [Atom True is_word Plus] (c # cs) = None" if "is_space c" for c cs
    using space_not_word [OF that] by (simp add: match_plus_last)
  then have "match_here [Atom False is_space Plus, Atom True is_word Plus] r =
      (if min_count Plus \<le> length (takeWhile is_space r)
       then map_option ((#) (takeWhile is_space r))
              (match_here [Atom True is_word Plus] (dropWhile is_space r))
       else None)"
    by (intro match_greedy_disjoint) simp_all
  then show ?thesis
    by (simp only: match_plus_last) (auto simp: Suc_le_eq)
qed

lemma match_hyphen_tail:
  "match_here hyphen_tail r =
     (case r of
        [] \<Rightarrow> None
      | h # r2 \<Rightarrow>
          if is_hyphen h \<and> takeWhile is_space r2 \<noteq> []
             \<and> takeWhile is_word (dropWhile is_space r2) \<noteq> []
          then Some [[h], takeWhile is_space r2, takeWhile is_word (dropWhile is_space r2)]
          else None)"
proof (cases r)
  case Nil
  then show ?thesis by (simp add: hyphen_tail_def)
next
  case (Cons h r2)
  have "match_here hyphen_tail (h # r2) =
          (if is_hyphen h
           then map_option ((#) [h])
                  (match_here [Atom False is_space Plus, Atom True is_word Plus] r2)
           else None)"
    unfolding hyphen_tail_def by (subst match_here.simps) simp
  then show ?thesis
    by (simp only: match_space_word Cons) auto
qed

lemma match_hyphen_re:
  "match_here hyphen_re s =
     (if takeWhile is_word s = [] then None
      else map_option ((#) (takeWhile is_word s)) (match_here hyphen_tail (dropWhile is_word s)))"
proof -
  have "match_here hyphen_tail (c # cs) = None" if "is_word c" for c cs
    using word_not_hyphen [OF that] by (simp add: match_hyphen_tail)
  then have "match_here (Atom True is_word Plus # hyphen_tail) s =
      (if min_count Plus \<le> length (takeWhile is_word s)
       then map_option ((#) (takeWhile is_word s)) (match_here hyphen_tail (dropWhile is_word s))
       else None)"
    by (intro match_greedy_disjoint) simp_all
  moreover have "hyphen_re = Atom True is_word Plus # hyphen_tail"
    by (simp add: hyphen_re_def hyphen_tail_def)
  moreover have "(min_count Plus \<le> length (takeWhile is_word s)) = (takeWhile is_word s \<noteq> [])"
    by (auto simp: Suc_le_eq)
  ultimately show ?thesis by (simp only: if_not_P if_P split: if_splits) auto
qed

lemma hyphenated_None:
  assumes "hyphenated s = None"
  shows "match_here hyphen_re s = None"
proof (cases "takeWhile is_word s = []")
  case True
  then show ?thesis by (simp add: match_hyphen_re)
next
  case False
  have "match_here hyphen_tail (dropWhile is_word s) = None"
  proof (cases "dropWhile is_word s")
    case Nil
    show ?thesis by (simp only: match_hyphen_tail Nil list.case)
  next
    case (Cons h r2)
    with assms False
    have "\<not> (h = CHR ''-'' \<and> takeWhile is_space r2 \<noteq> []
             \<and> takeWhile is_word (dropWhile is_space r2) \<noteq> [])"
      by (simp add: hyphenated_def Let_def split: if_splits)
    then show ?thesis
      by (simp add: match_hyphen_tail Cons is_hyphen_def)
  qed
  then show ?thesis by (simp add: match_hyphen_re)
qed

lemma hyphenated_Some:
  assumes "hyphenated s = Some (w1, w2, rest)"
  shows "\<exists>sp. match_here hyphen_re s = Some [w1, ''-'', sp, w2] \<and> s = w1 @ ''-'' @ sp @ w2 @ rest
          \<and> w1 \<noteq> []"
proof -
  from assms obtain h r2 where r1: "dropWhile is_word s = h # r2"
    and w1: "w1 = takeWhile is_word s" "w1 \<noteq> []" and h: "h = CHR ''-''"
    and sp: "takeWhile is_space r2 \<noteq> []"
    and w2: "w2 = takeWhile is_word (dropWhile is_space r2)" "w2 \<noteq> []"
    and rest: "rest = dropWhile is_word (dropWhile is_space r2)"
    by (auto simp: hyphenated_def Let_def split: list.splits if_splits)
  let ?sp = "takeWhile is_space r2"
  have "match_here hyphen_re s = Some [w1, ''-'', ?sp, w2]"
    using w1 w2 sp h by (simp add: match_hyphen_re match_hyphen_tail r1 is_hyphen_def)
  moreover have "s = w1 @ ''-'' @ ?sp @ w2 @ rest"
  proof -
    have "s = takeWhile is_word s @ dropWhile is_word s" by simp
    also have "dropWhile is_word s = h # (?sp @ dropWhile is_space r2)"
      by (simp add: r1)
    also have "dropWhile is_space r2 = w2 @ rest"
      by (simp add: w2 rest)
    finally show ?thesis by (simp add: w1 h)
  qed
  ultimately show ?thesis using w1 by blast
qed

lemma clean_hyphens_rejoin: "clean_hyphens s = rejoin_hyphens s"
proof (induction s rule: rejoin_hyphens.induct)
  case 1
  have "hyphenated [] = None" by (simp add: hyphenated_def)
  then have "match_here hyphen_re [] = None" by (rule hyphenated_None)
  then show ?case by (simp add: clean_hyphens_def)
next
  case (2 c cs)
  show ?case
  proof (cases "hyphenated (c # cs)")
    case None
    then have "match_here hyphen_re (c # cs) = None" by (rule hyphenated_None)
    then have "clean_hyphens (c # cs) = c # clean_hyphens cs"
      unfolding clean_hyphens_def by (rule re_sub_no_match)
    with "2.IH"(1) [OF None] None show ?thesis by simp
  next
    case (Some r)
    obtain w1 w2 rest where r: "r = (w1, w2, rest)" by (cases r)
    from hyphenated_Some [OF Some [unfolded r]] obtain sp
      where m: "match_here hyphen_re (c # cs) = Some [w1, ''-'', sp, w2]"
        and s: "c # cs = w1 @ ''-'' @ sp @ w2 @ rest" and w1: "w1 \<noteq> []" by blast
    have "re_sub hyphen_re [Grp 1, Grp 2] (c # cs) =
            expand [Grp 1, Grp 2] (groups hyphen_re [w1, ''-'', sp, w2])
            @ re_sub hyphen_re [Grp 1, Grp 2] (drop (length (concat [w1, ''-'', sp, w2])) (c # cs))"
      by (rule re_sub_match [OF m]) (simp add: w1)
    also have "drop (length (concat [w1, ''-'', sp, w2])) (c # cs) = rest"
      by (subst s) simp
    also have "expand [Grp 1, Grp 2] (groups hyphen_re [w1, ''-'', sp, w2]) = w1 @ w2"
      by (simp add: groups_def hyphen_re_def)
    finally have "clean_hyphens (c # cs) = w1 @ w2 @ clean_hyphens rest"
      by (simp add: clean_hyphens_def)
    with "2.IH"(2) [OF Some [unfolded r] refl refl] Some r show ?thesis by simp
  qed
qed

text \<open>
  Claim C4, as the specification states it: every occurrence of word characters, a
  hyphen, whitespace, word characters is merged. \<^verbatim>\<open>re.sub\<close> replaces the matches it
  finds from left to right, and they do not overlap: in \<^verbatim>\<open>a- b- c\<close> the \<^verbatim>\<open>b\<close>
  is consumed as the second word of the first match, so the occurrence \<^verbatim>\<open>b- c\<close>
  keeps its hyphen and its space.
\<close>

theorem clean_hyphens_overlap_counterexample:
  "hyphenated ''b- c'' = Some (''b'', ''c'', '''') \<and> normalize_pages [''a- b- c''] = Inr ''ab- c''"
  by (simp add: normalize_defs char_class_defs hyphenated_def)


text \<open>
  Claim C4, amended: scanning from left to right, wherever the text reads a run of word
  characters, a hyphen, a run of whitespace and a run of word characters, the hyphen
  and the whitespace are deleted, and the scan resumes behind the second run (an
  occurrence that starts inside the previous match is left as it is).
  normalize(["co-\noperative"]) is "cooperative".
\<close>

theorem clean_hyphens_left_to_right:
  "clean_hyphens s = rejoin_hyphens s
   \<and> normalize_pages [''co-'' @ [newline] @ ''operative''] = Inr ''cooperative''"
proof -
  have "normalize_pages [''co-'' @ [newline] @ ''operative''] = Inr ''cooperative''"
    by (simp add: normalize_defs char_class_defs)
  then show ?thesis by (simp add: clean_hyphens_rejoin)
qed

theorem clean_hyphens_left_to_right_witness:
  "clean_hyphens ''co- op re- do'' = rejoin_hyphens ''co- op re- do''
   \<and> rejoin_hyphens ''co- op re- do'' = ''coop redo''"
proof -
  have "rejoin_hyphens ''co- op re- do'' = ''coop redo''"
    by (simp add: hyphenated_def char_class_defs)
  with clean_hyphens_left_to_right [of "''co- op re- do''"] show ?thesis by simp
qed

section \<open>The boundary of \<^verbatim>\<open>extract_and_clean_text_from_pdf\<close>\<close>



lemma extract_files: "files (snd (extract_and_clean_text_from_pdf pdf_path w)) = files w"
  by (simp add: extract_and_clean_text_from_pdf_def split: sum.splits)


lemma extract_success:
  "fst (extract_and_clean_text_from_pdf pdf_path w) = Inr t \<Longrightarrow>
     snd (extract_and_clean_text_from_pdf pdf_path w) = w"
  by (auto simp: extract_and_clean_text_from_pdf_def split: sum.splits)

lemma extract_readable:
  "files w pdf_path = Some (Inr (map Inr pages)) \<Longrightarrow>
     fst (extract_and_clean_text_from_pdf pdf_path w) =
       (case normalize_pages pages of
          Inl e \<Rightarrow> Inl (ValueError unreadable_msg) | Inr t \<Rightarrow> Inr t)"
  by (simp add: extract_and_clean_text_from_pdf_def PdfReader_def normalize_pages_def
      split: sum.splits)

text \<open>
  The whole outcome of a call on a document whose pages all extract, result and world:
  nothing changes when normalize succeeds; when it fails, the handler of lines 38 to 41
  prints the error of line 15 or 24 and raises the generic one.
\<close>

lemma extract_outcome:
  "files w pdf_path = Some (Inr (map Inr pages)) \<Longrightarrow>
     extract_and_clean_text_from_pdf pdf_path w =
       (case normalize_pages pages of
          Inr t \<Rightarrow> (Inr t, w)
        | Inl e \<Rightarrow>
            (Inl (ValueError unreadable_msg),
             w\<lparr>stdout := stdout w @ [''Error extracting text from PDF: '' @ str e]\<rparr>))"
  by (simp add: extract_and_clean_text_from_pdf_def PdfReader_def normalize_pages_def
      split: sum.splits)






section \<open>The temporary file of \<^verbatim>\<open>handle_message\<close>\<close>

text \<open>
  When \<^verbatim>\<open>tmpfile.write\<close> succeeds and the name of the temporary file was free, the
  handler leaves the files as it found them, on every path: no PDF among the elements,
  no content, a failed creation, a failed close, a failed extraction, success.
\<close>

lemma send_files: "files (send m w) = files w"
  by (simp add: send_def)

lemma handlers_files: "files (handlers raised w) = files w"
  by (simp add: handlers_def send_files split: option.splits exn.splits)

lemma try_block_files:
  assumes "try_block env pdf_file w = (raised, tmp_pdf_path, w2)"
  shows "files w2 =
           (case file_content pdf_file of
              None \<Rightarrow> files w
            | Some d \<Rightarrow>
                if create_error env \<noteq> None then files w
                else if write_error env \<noteq> None \<or> close_error env \<noteq> None
                     then (files w)(tmp_name env \<mapsto> partial env)
                     else (files w)(tmp_name env \<mapsto> d))"
    and "tmp_pdf_path =
           (if file_content pdf_file \<noteq> None \<and> create_error env = None \<and> write_error env = None
            then Some (tmp_name env) else None)"
proof -
  have e2: "extract_and_clean_text_from_pdf p v = (r, v') \<Longrightarrow> files v' = files v" for p v r v'
    using extract_files [of p v] by simp
  have p: "tmp_pdf_path = fst (snd (try_block env pdf_file w))"
    and q: "w2 = snd (snd (try_block env pdf_file w))"
    using assms by simp_all
  show "files w2 =
           (case file_content pdf_file of
              None \<Rightarrow> files w
            | Some d \<Rightarrow>
                if create_error env \<noteq> None then files w
                else if write_error env \<noteq> None \<or> close_error env \<noteq> None
                     then (files w)(tmp_name env \<mapsto> partial env)
                     else (files w)(tmp_name env \<mapsto> d))"
    unfolding q
    by (cases "file_content pdf_file"; cases "create_error env"; cases "write_error env";
        cases "close_error env")
      (auto simp: try_block_def Let_def send_files split: prod.splits sum.splits dest!: e2)
  show "tmp_pdf_path =
           (if file_content pdf_file \<noteq> None \<and> create_error env = None \<and> write_error env = None
            then Some (tmp_name env) else None)"
    unfolding p
    by (cases "file_content pdf_file"; cases "create_error env"; cases "write_error env";
        cases "close_error env")
      (auto simp: try_block_def Let_def split: prod.splits sum.splits)
qed

lemma handle_message_removes_tmp:
  assumes "write_error env = None" and "files w (tmp_name env) = None"
  shows "files (handle_message env message w) = files w"
proof (cases "filter (\<lambda>file. mime file = ''application/pdf'') (elements message)")
  case Nil
  then show ?thesis by (simp add: handle_message_def send_files)
next
  case (Cons pdf_file rest)
  define w1 where "w1 = send (assistant (''Processing `'' @ name pdf_file @ ''`...'')) w"
  have w1: "files w1 = files w" unfolding w1_def by (rule send_files)
  obtain raised tmp_pdf_path w2 where t: "try_block env pdf_file w1 = (raised, tmp_pdf_path, w2)"
    by (cases "try_block env pdf_file w1") auto
  have h: "handle_message env message w = finally_block tmp_pdf_path (handlers raised w2)"
    using Cons t by (simp add: handle_message_def Let_def w1_def)
  have "files (finally_block tmp_pdf_path (handlers raised w2)) = files w"
    using try_block_files [OF t] assms
    by (auto simp: finally_block_def handlers_files w1 split: option.splits)
  with h show ?thesis by simp
qed

text \<open>
  Claim C8: the temporary file is deleted on every exit path of the upload handler. The
  \<^verbatim>\<open>finally\<close> clause removes the file only if \<^verbatim>\<open>tmp_pdf_path\<close> is bound, and
  line 109 binds it after the write of line 108: when the write raises, the file that
  \<^verbatim>\<open>NamedTemporaryFile(delete=False)\<close> created stays behind, with the bytes that
  reached it.
\<close>

theorem handle_message_leaks_tmp_when_write_fails:
  "files (handle_message
            \<lparr>tmp_name = ''/tmp/tmpk3.pdf'', create_error = None,
             write_error = Some (OtherException ''[Errno 28] No space left on device''),
             partial = Inl (OtherException ''EOF marker not found''),
             close_error = None\<rparr>
            \<lparr>content = '''', author = ''User'', actions = [],
             elements = [\<lparr>name = ''a.pdf'', mime = ''application/pdf'',
                          file_content = Some (Inr [Inr ''Hello''])\<rparr>]\<rparr>
            \<lparr>files = Map.empty, stdout = [], sent = [], user_session = Map.empty\<rparr>)
         ''/tmp/tmpk3.pdf''
     = Some (Inl (OtherException ''EOF marker not found''))"
  by (simp add: handle_message_def try_block_def handlers_def finally_block_def send_def
      assistant_def)

section \<open>The prompts\<close>

text \<open>
  What the handler shows as the summary, on the path where everything succeeds, is the
  prompt itself: the messages sent are the notice, the announcement, the prompt under
  the heading \<^verbatim>\<open>**Summary:**\<close>, and the closing message with the quiz button when
  the text is not empty.
\<close>

lemma extract_ok:
  "files w pdf_path = Some (Inr (map Inr pages)) \<Longrightarrow> normalize_pages pages = Inr t \<Longrightarrow>
     extract_and_clean_text_from_pdf pdf_path w = (Inr t, w)"
  by (simp add: extract_outcome)

lemma handle_message_shows_prompt:
  assumes "filter (\<lambda>file. mime file = ''application/pdf'') (elements message) = pdf_file # rest"
    and "file_content pdf_file = Some (Inr (map Inr pages))"
    and "create_error env = None" and "write_error env = None" and "close_error env = None"
    and "normalize_pages pages = Inr t"
  shows "sent (handle_message env message w) =
           sent w @
           [assistant (''Processing `'' @ name pdf_file @ ''`...''),
            assistant ''Generating summary...'',
            assistant (''**Summary:**'' @ [newline] @ summarize_text t)] @
           (if t = [] then []
            else [(assistant ''Summary generated successfully!'')\<lparr>actions := [''create_quiz'']\<rparr>])"
proof -
  define w1 where "w1 = send (assistant (''Processing `'' @ name pdf_file @ ''`...'')) w"
  define w2 where "w2 = w1\<lparr>files := (files w1)(tmp_name env \<mapsto> Inr (map Inr pages))\<rparr>"
  have x: "extract_and_clean_text_from_pdf (tmp_name env) w2 = (Inr t, w2)"
    by (rule extract_ok [OF _ assms(6)]) (simp add: w2_def)
  have "try_block env pdf_file w1 =
          (None, Some (tmp_name env),
           (let w4 = w2\<lparr>user_session := (user_session w2)(''original_pdf_text'' \<mapsto> t)\<rparr>;
                w5 = send (assistant ''Generating summary...'') w4;
                w6 = send (assistant (''**Summary:**'' @ [newline] @ summarize_text t)) w5
            in if t \<noteq> []
               then send ((assistant ''Summary generated successfully!'')
                            \<lparr>actions := [''create_quiz'']\<rparr>) w6
               else w6))"
    using assms(2-5) x by (simp add: try_block_def Let_def w2_def)
  then show ?thesis
    using assms(1)
    by (simp add: handle_message_def Let_def w1_def [symmetric] handlers_def finally_block_def
        send_def w2_def w1_def)
qed

text \<open>
  Claim C9: for every input text, \<^verbatim>\<open>summarize_text\<close> returns the instruction of line
  50, two newlines, the text, two newlines and \<^verbatim>\<open>Summary:\<close>, and nothing else: no
  part of the result comes from a language model. Nor does the caller put one in
  between: on the path where everything succeeds, the message \<^verbatim>\<open>handle_message\<close>
  sends under the heading \<^verbatim>\<open>**Summary:**\<close> is that prompt.
\<close>

theorem summarize_text_template:
  "summarize_text text =
     ''Please summarize the following document, focusing on key ideas and important points. Ensure the summary is clear, concise, and structured with short, readable paragraphs:''
     @ [newline, newline] @ text @ [newline, newline] @ ''Summary:''
   \<and> (filter (\<lambda>file. mime file = ''application/pdf'') (elements message) = pdf_file # rest
        \<and> file_content pdf_file = Some (Inr (map Inr pages))
        \<and> create_error env = None \<and> write_error env = None \<and> close_error env = None
        \<and> normalize_pages pages = Inr t
      \<longrightarrow> sent (handle_message env message w) =
            sent w @
            [assistant (''Processing `'' @ name pdf_file @ ''`...''),
             assistant ''Generating summary...'',
             assistant (''**Summary:**'' @ [newline] @ summarize_text t)] @
            (if t = [] then []
             else [(assistant ''Summary generated successfully!'')
                     \<lparr>actions := [''create_quiz'']\<rparr>]))"
proof -
  have "sent (handle_message env message w) =
            sent w @
            [assistant (''Processing `'' @ name pdf_file @ ''`...''),
             assistant ''Generating summary...'',
             assistant (''**Summary:**'' @ [newline] @ summarize_text t)] @
            (if t = [] then []
             else [(assistant ''Summary generated successfully!'')
                     \<lparr>actions := [''create_quiz'']\<rparr>])"
    if "filter (\<lambda>file. mime file = ''application/pdf'') (elements message) = pdf_file # rest"
      and "file_content pdf_file = Some (Inr (map Inr pages))"
      and "create_error env = None" and "write_error env = None" and "close_error env = None"
      and "normalize_pages pages = Inr t"
    using that by (rule handle_message_shows_prompt)
  moreover have "summarize_text text =
     ''Please summarize the following document, focusing on key ideas and important points. Ensure the summary is clear, concise, and structured with short, readable paragraphs:''
     @ [newline, newline] @ text @ [newline, newline] @ ''Summary:''"
    by (simp add: summarize_text_def)
  ultimately show ?thesis by blast
qed

theorem summarize_text_template_witness:
  "sent (handle_message
        \<lparr>tmp_name = ''/tmp/tmpk3.pdf'', create_error = None, write_error = None,
         partial = Inl (OtherException ''EOF marker not found''), close_error = None\<rparr>
        \<lparr>content = '''', author = ''User'', actions = [],
         elements = [\<lparr>name = ''a.pdf'', mime = ''application/pdf'',
                      file_content = Some (Inr (map Inr [''Cells divide.'']))\<rparr>]\<rparr>
        \<lparr>files = Map.empty, stdout = [], sent = [], user_session = Map.empty\<rparr>) =
     [assistant ''Processing `a.pdf`...'',
      assistant ''Generating summary...'',
      assistant (''**Summary:**'' @ [newline] @
        ''Please summarize the following document, focusing on key ideas and important points. Ensure the summary is clear, concise, and structured with short, readable paragraphs:''
        @ [newline, newline] @ ''Cells divide.'' @ [newline, newline] @ ''Summary:''),
      (assistant ''Summary generated successfully!'')\<lparr>actions := [''create_quiz'']\<rparr>]"
proof -
  let ?env = "\<lparr>tmp_name = ''/tmp/tmpk3.pdf'', create_error = None, write_error = None,
         partial = Inl (OtherException ''EOF marker not found''), close_error = None\<rparr>"
  let ?file = "\<lparr>name = ''a.pdf'', mime = ''application/pdf'',
                      file_content = Some (Inr (map Inr [''Cells divide.'']))\<rparr>"
  let ?message = "\<lparr>content = '''', author = ''User'', actions = [], elements = [?file]\<rparr>"
  let ?w = "\<lparr>files = Map.empty, stdout = [], sent = [], user_session = Map.empty\<rparr>"
  note t = summarize_text_template
         [of "''Cells divide.''" ?message ?file "[]" "[''Cells divide.'']" ?env "''Cells divide.''" ?w]
  have n: "normalize_pages [''Cells divide.''] = Inr ''Cells divide.''"
    by (simp add: normalize_defs char_class_defs)
  have h: "filter (\<lambda>file. mime file = ''application/pdf'') (elements ?message) = ?file # []
        \<and> file_content ?file = Some (Inr (map Inr [''Cells divide.'']))
        \<and> create_error ?env = None \<and> write_error ?env = None \<and> close_error ?env = None
        \<and> normalize_pages [''Cells divide.''] = Inr ''Cells divide.''"
    using n by simp
  have p: "summarize_text ''Cells divide.'' =
     ''Please summarize the following document, focusing on key ideas and important points. Ensure the summary is clear, concise, and structured with short, readable paragraphs:''
     @ [newline, newline] @ ''Cells divide.'' @ [newline, newline] @ ''Summary:''"
    by (rule conjunct1 [OF t])
  have "sent (handle_message ?env ?message ?w) =
            sent ?w @
            [assistant (''Processing `'' @ name ?file @ ''`...''),
             assistant ''Generating summary...'',
             assistant (''**Summary:**'' @ [newline] @ summarize_text ''Cells divide.'')] @
            (if ''Cells divide.'' = [] then []
             else [(assistant ''Summary generated successfully!'')
                     \<lparr>actions := [''create_quiz'']\<rparr>])"
    by (rule mp [OF conjunct2 [OF t] h])
  then show ?thesis unfolding p by simp
qed

text \<open>
  Claim C10: \<^verbatim>\<open>generate_quiz\<close> returns a list of exactly one string: the fixed
  refusal of line 62 for the empty text, and otherwise the prompt of line 64, which is
  its instruction, two newlines, the text, two newlines and \<^verbatim>\<open>Quiz:\<close>.
\<close>

theorem generate_quiz_single:
  "length (generate_quiz original_text) = 1
   \<and> generate_quiz [] = [''No quiz can be generated for empty text.'']
   \<and> (original_text \<noteq> [] \<longrightarrow>
        generate_quiz original_text =
          [''Based on the following text, please generate a quiz. It can include Multiple Choice Questions (MCQs) or mixed-style questions. Focus on important facts and concepts:''
           @ [newline, newline] @ original_text @ [newline, newline] @ ''Quiz:''])"
  by (simp add: generate_quiz_def)

theorem generate_quiz_single_witness:
  "length (generate_quiz ''Cells divide.'') = 1
   \<and> generate_quiz ''Cells divide.'' =
       [''Based on the following text, please generate a quiz. It can include Multiple Choice Questions (MCQs) or mixed-style questions. Focus on important facts and concepts:''
        @ [newline, newline] @ ''Cells divide.'' @ [newline, newline] @ ''Quiz:'']"
  using generate_quiz_single [of "''Cells divide.''"] by simp

end
